theory Spec2Isabelle
  imports Main "HOL-Library.Word" "HOL-Library.AList"
begin

unbundle bit_operations_syntax

section \<open>Text, bytes and errors\<close>

text \<open>
  A Python \<open>str\<close> is a sequence of Unicode code points and a \<open>bytes\<close> value a sequence of
  numbers below 256; both are lists of naturals here, so that \<open>ord(c) ^ k\<close> can leave the
  byte range as it can in the source. \<open>ustr\<close> writes an ASCII literal as such a list.
\<close>

type_synonym pystr = "nat list"
type_synonym pybytes = "nat list"

datatype error =
  ValueError | IntegrityError | AttributeError | JSONDecodeError | UnicodeDecodeError

definition ustr :: "string \<Rightarrow> pystr" where
  "ustr s = map of_char s"

section \<open>Storage obfuscation: \<open>encrypt_data\<close> and \<open>decrypt_data\<close>\<close>

definition ENCRYPTION_KEY :: pystr where
  "ENCRYPTION_KEY = ustr ''SecureKey2024''"

text \<open>\<open>ord(ENCRYPTION_KEY[i % len(ENCRYPTION_KEY)])\<close>\<close>

definition key_at :: "nat \<Rightarrow> nat" where
  "key_at i = ENCRYPTION_KEY ! (i mod length ENCRYPTION_KEY)"

text \<open>
  \<open>base64.b64encode\<close> and \<open>base64.b64decode\<close> are standard-library functions. The encoder
  is RFC 4648 with padding. The decoder follows CPython's \<open>binascii.a2b_base64\<close> in its
  default, lenient mode: characters outside the alphabet are skipped, a complete padding
  ends the input, and an incomplete last group is an error (\<open>None\<close>). A \<open>str\<close> argument
  with a non-ASCII character is an error as well.
\<close>

definition b64char :: "nat \<Rightarrow> nat" where
  "b64char n = (if n < 26 then 65 + n else if n < 52 then 71 + n
                else if n < 62 then n - 4 else if n = 62 then 43 else 47)"

fun b64encode :: "pybytes \<Rightarrow> pystr" where
  "b64encode [] = []"
| "b64encode [a] = [b64char (a div 4), b64char ((a mod 4) * 16), 61, 61]"
| "b64encode [a, b] =
     [b64char (a div 4), b64char ((a mod 4) * 16 + b div 16), b64char ((b mod 16) * 4), 61]"
| "b64encode (a # b # c # rest) =
     [b64char (a div 4), b64char ((a mod 4) * 16 + b div 16),
      b64char ((b mod 16) * 4 + c div 64), b64char (c mod 64)] @ b64encode rest"

definition b64val :: "nat \<Rightarrow> nat option" where
  "b64val c = (if 65 \<le> c \<and> c \<le> 90 then Some (c - 65)
               else if 97 \<le> c \<and> c \<le> 122 then Some (c - 71)
               else if 48 \<le> c \<and> c \<le> 57 then Some (c + 4)
               else if c = 43 then Some 62 else if c = 47 then Some 63 else None)"

fun a2b_base64 :: "nat \<Rightarrow> nat \<Rightarrow> nat \<Rightarrow> pystr \<Rightarrow> pybytes option" where
  "a2b_base64 quad_pos leftchar pads [] = (if quad_pos \<noteq> 0 then None else Some [])"
| "a2b_base64 quad_pos leftchar pads (c # cs) =
     (if c = 61 then
        (if 2 \<le> quad_pos then
           (if 4 \<le> quad_pos + (pads + 1) then Some []
            else a2b_base64 quad_pos leftchar (pads + 1) cs)
         else a2b_base64 quad_pos leftchar pads cs)
      else case b64val c of
        None \<Rightarrow> a2b_base64 quad_pos leftchar pads cs
      | Some this_ch \<Rightarrow>
         (if quad_pos = 0 then a2b_base64 1 this_ch 0 cs
          else if quad_pos = 1 then
            map_option ((#) (leftchar * 4 + this_ch div 16)) (a2b_base64 2 (this_ch mod 16) 0 cs)
          else if quad_pos = 2 then
            map_option ((#) (leftchar * 16 + this_ch div 4)) (a2b_base64 3 (this_ch mod 4) 0 cs)
          else
            map_option ((#) (leftchar * 64 + this_ch)) (a2b_base64 0 0 0 cs)))"

definition b64decode :: "pystr \<Rightarrow> pybytes option" where
  "b64decode s = (if \<exists>c \<in> set s. 128 \<le> c then None else a2b_base64 0 0 0 s)"

text \<open>
  \<open>encrypt_data\<close>: \<open>None\<close> for an empty text; \<open>bytes([...])\<close> raises \<open>ValueError\<close> when a
  value is 256 or more.
\<close>

definition encrypt_data :: "pystr \<Rightarrow> error + pystr option" where
  "encrypt_data text =
     (if text = [] then Inr None
      else let result = map (\<lambda>(i, c). c XOR key_at i) (enumerate 0 text)
           in if \<exists>b \<in> set result. 256 \<le> b then Inl ValueError
              else Inr (Some (b64encode result)))"

text \<open>
  \<open>decrypt_data\<close>: the bare \<open>except\<close> turns every failure of the decoder into the text
  \<open>[Error]\<close>; \<open>chr\<close> cannot fail, a byte xor a key character being below 256.
\<close>

definition decrypt_data :: "pystr option \<Rightarrow> pystr option" where
  "decrypt_data encrypted =
     (case encrypted of
        None \<Rightarrow> None
      | Some e \<Rightarrow>
          if e = [] then None
          else case b64decode e of
                 None \<Rightarrow> Some (ustr ''[Error]'')
               | Some data \<Rightarrow> Some (map (\<lambda>(i, b). b XOR key_at i) (enumerate 0 data)))"

text \<open>The expression \<open>decrypt_data(encrypt_data(s))\<close>.\<close>

definition decrypt_encrypt :: "pystr \<Rightarrow> error + pystr option" where
  "decrypt_encrypt s = (case encrypt_data s of Inl e \<Rightarrow> Inl e | Inr c \<Rightarrow> Inr (decrypt_data c))"

text \<open>The xor pass of both functions, from position \<open>k\<close> on.\<close>

definition xor_key :: "nat \<Rightarrow> nat list \<Rightarrow> nat list" where
  "xor_key k xs = map (\<lambda>(i, c). c XOR key_at i) (enumerate k xs)"

(*DEFS_END*)
lemma b64val_b64char: "n < 64 \<Longrightarrow> b64val (b64char n) = Some n"
  by (auto simp: b64val_def b64char_def)

lemma b64char_not_pad: "n < 64 \<Longrightarrow> b64char n \<noteq> 61"
  by (auto simp: b64char_def)

lemma b64char_ascii: "n < 64 \<Longrightarrow> b64char n < 128"
  by (auto simp: b64char_def)

lemma sextets:
  fixes a b c :: nat
  assumes "a < 256" "b < 256" "c < 256"
  shows "a div 4 < 64" "a mod 4 * 16 < 64" "a mod 4 * 16 + b div 16 < 64"
    "b mod 16 * 4 < 64" "b mod 16 * 4 + c div 64 < 64" "c mod 64 < 64"
  using assms by auto

lemma regroup1: "(a::nat) div 4 * 4 + (a mod 4 * 16) div 16 = a"
  by simp

lemma regroup2: "(b::nat) < 256 \<Longrightarrow> a div 4 * 4 + (a mod 4 * 16 + b div 16) div 16 = a"
  by simp

lemma regroup3:
  "(b::nat) < 256 \<Longrightarrow> (a mod 4 * 16 + b div 16) mod 16 * 16 + (b mod 16 * 4) div 4 = b"
  by simp

lemma div64_lt: "(c::nat) < 256 \<Longrightarrow> c div 64 < 4"
  by simp

lemma regroup4:
  "(b::nat) < 256 \<Longrightarrow> c < 256 \<Longrightarrow>
   (a mod 4 * 16 + b div 16) mod 16 * 16 + (b mod 16 * 4 + c div 64) div 4 = b"
  by (simp add: div64_lt)

lemma regroup5: "(c::nat) < 256 \<Longrightarrow> (b mod 16 * 4 + c div 64) mod 4 * 64 + c mod 64 = c"
  by (simp add: div64_lt)

lemma a2b_step:
  assumes "n < 64"
  shows "a2b_base64 0 l p (b64char n # cs) = a2b_base64 (Suc 0) n 0 cs"
    "a2b_base64 (Suc 0) l p (b64char n # cs) =
       map_option ((#) (l * 4 + n div 16)) (a2b_base64 2 (n mod 16) 0 cs)"
    "a2b_base64 2 l p (b64char n # cs) =
       map_option ((#) (l * 16 + n div 4)) (a2b_base64 3 (n mod 4) 0 cs)"
    "a2b_base64 3 l p (b64char n # cs) =
       map_option ((#) (l * 64 + n)) (a2b_base64 0 0 0 cs)"
  using assms by (simp_all add: b64val_b64char b64char_not_pad)

lemma a2b_pad:
  "a2b_base64 2 l 0 (61 # 61 # cs) = Some []"
  "a2b_base64 3 l 0 (61 # cs) = Some []"
  by simp_all

lemmas [simp del] = a2b_base64.simps(2)

lemma a2b_one:
  assumes "a < 256"
  shows "a2b_base64 0 0 0 [b64char (a div 4), b64char (a mod 4 * 16), 61, 61] = Some [a]"
  using sextets(1,2) [OF assms assms assms]
  by (simp add: a2b_step a2b_pad regroup1)

lemma a2b_two:
  assumes "a < 256" "b < 256"
  shows "a2b_base64 0 0 0 [b64char (a div 4), b64char (a mod 4 * 16 + b div 16),
           b64char (b mod 16 * 4), 61] = Some [a, b]"
  using sextets(1,3,4) [OF assms assms(2)] assms(2)
  by (simp add: a2b_step a2b_pad regroup2 regroup3)

lemma a2b_three:
  assumes "a < 256" "b < 256" "c < 256"
  shows "a2b_base64 0 0 0 (b64char (a div 4) # b64char (a mod 4 * 16 + b div 16) #
           b64char (b mod 16 * 4 + c div 64) # b64char (c mod 64) # cs) =
         map_option (\<lambda>bs. a # b # c # bs) (a2b_base64 0 0 0 cs)"
  using sextets(1,3,5,6) [OF assms] assms(2,3)
  by (simp add: a2b_step regroup2 regroup4 regroup5 option.map_comp comp_def)

lemma a2b_b64encode: "\<forall>b \<in> set bs. b < 256 \<Longrightarrow> a2b_base64 0 0 0 (b64encode bs) = Some bs"
proof (induction bs rule: b64encode.induct)
  case 1 show ?case by simp
next
  case (2 a) then show ?case by (simp add: a2b_one)
next
  case (3 a b) then show ?case by (simp add: a2b_two)
next
  case (4 a b c rest) then show ?case by (simp add: a2b_three)
qed

lemma b64encode_ascii: "\<forall>b \<in> set bs. b < 256 \<Longrightarrow> c \<in> set (b64encode bs) \<Longrightarrow> c < 128"
proof (induction bs rule: b64encode.induct)
  case 1 then show ?case by simp
next
  case (2 a)
  then have "a < 256" by simp
  from sextets(1,2) [OF this this this] 2(2) show ?case
    by (auto simp: b64char_ascii)
next
  case (3 a b)
  then have ab: "a < 256" "b < 256" by simp_all
  from sextets(1,3,4) [OF ab ab(2)] 3(2) show ?case
    by (auto simp: b64char_ascii)
next
  case (4 a b c rest)
  then have abc: "a < 256" "b < 256" "c < 256" by simp_all
  from sextets(1,3,5,6) [OF abc] 4 show ?case
    by (auto simp: b64char_ascii)
qed

lemma b64encode_eq_Nil: "b64encode bs = [] \<longleftrightarrow> bs = []"
  by (induction bs rule: b64encode.induct) simp_all

lemma b64decode_b64encode: "\<forall>b \<in> set bs. b < 256 \<Longrightarrow> b64decode (b64encode bs) = Some bs"
  using b64encode_ascii [of bs] by (fastforce simp: b64decode_def a2b_b64encode)

lemma xor_key_simps: "xor_key k [] = []" "xor_key k (x # xs) = (x XOR key_at k) # xor_key (Suc k) xs"
  by (simp_all add: xor_key_def)

lemma xor_key_involution: "xor_key k (xor_key k xs) = xs"
  by (induction xs arbitrary: k) (simp_all add: xor_key_simps xor.assoc)

lemma xor_key_eq_Nil: "xor_key k xs = [] \<longleftrightarrow> xs = []"
  by (cases xs) (simp_all add: xor_key_simps)

lemma key_at_lt: "key_at i < 128"
proof -
  have "\<forall>k \<in> set ENCRYPTION_KEY. k < 128" by (simp add: ENCRYPTION_KEY_def ustr_def)
  moreover have "i mod length ENCRYPTION_KEY < length ENCRYPTION_KEY"
    by (simp add: ENCRYPTION_KEY_def ustr_def)
  ultimately show ?thesis unfolding key_at_def using nth_mem by blast
qed

lemma xor_lt_128: 
  assumes "(c::nat) < 128" "k < 128" shows "c XOR k < 128"
proof -
  have "take_bit 7 c = c" "take_bit 7 k = k" using assms by (simp_all add: take_bit_nat_eq_self_iff)
  then have "take_bit 7 (c XOR k) = c XOR k" by (simp add: take_bit_xor)
  then have "c XOR k < 2 ^ 7" by (simp only: take_bit_nat_eq_self_iff)
  then show ?thesis by simp
qed

lemma xor_key_bytes:
  "\<forall>(i, c) \<in> set (enumerate k s). c XOR key_at i < 256 \<Longrightarrow> \<forall>b \<in> set (xor_key k s). b < 256"
  by (auto simp: xor_key_def)

lemma encrypt_data_Some:
  assumes "s \<noteq> []" and "\<forall>b \<in> set (xor_key 0 s). b < 256"
  shows "encrypt_data s = Inr (Some (b64encode (xor_key 0 s)))"
  using assms by (auto simp: encrypt_data_def xor_key_def Let_def)

lemma decrypt_data_b64encode:
  assumes "s \<noteq> []" and "\<forall>b \<in> set (xor_key 0 s). b < 256"
  shows "decrypt_data (Some (b64encode (xor_key 0 s))) = Some s"
  using assms
  by (simp add: decrypt_data_def b64encode_eq_Nil xor_key_eq_Nil b64decode_b64encode
      xor_key_def [symmetric] xor_key_involution)

lemma decrypt_encrypt_bytes:
  assumes "s \<noteq> []" and "\<forall>b \<in> set (xor_key 0 s). b < 256"
  shows "decrypt_encrypt s = Inr (Some s)"
  by (simp add: decrypt_encrypt_def encrypt_data_Some [OF assms] decrypt_data_b64encode [OF assms])

lemma ascii_xor_key: "\<forall>c \<in> set s. c < 128 \<Longrightarrow> \<forall>b \<in> set (xor_key k s). b < 128"
  by (induction s arbitrary: k) (simp_all add: xor_key_simps xor_lt_128 key_at_lt)

section \<open>Claims\<close>

text \<open>
  C10. For every non-empty string in which each character's code point, xored with the
  key character of its position, is below 256, decrypting the encryption gives the string
  back; every non-empty ASCII string is such a string. For the empty string
  \<open>encrypt_data\<close> returns \<open>None\<close>, which \<open>decrypt_data\<close> maps to \<open>None\<close>, not to the
  empty string.
\<close>

theorem decrypt_encrypt_round_trip:
  "(s \<noteq> [] \<and> (\<forall>(i, c) \<in> set (enumerate 0 s). c XOR key_at i < 256)
      \<longrightarrow> decrypt_encrypt s = Inr (Some s))
   \<and> (s \<noteq> [] \<and> (\<forall>c \<in> set s. c < 128) \<longrightarrow> decrypt_encrypt s = Inr (Some s))
   \<and> encrypt_data [] = Inr None \<and> decrypt_encrypt [] = Inr None"
proof (intro conjI impI)
  assume "s \<noteq> [] \<and> (\<forall>(i, c) \<in> set (enumerate 0 s). c XOR key_at i < 256)"
  then show "decrypt_encrypt s = Inr (Some s)"
    using xor_key_bytes [of 0 s] by (simp add: decrypt_encrypt_bytes)
next
  assume a: "s \<noteq> [] \<and> (\<forall>c \<in> set s. c < 128)"
  then have "\<forall>b \<in> set (xor_key 0 s). b < 128" using ascii_xor_key [of s 0] by blast
  then have "\<forall>b \<in> set (xor_key 0 s). b < 256" by fastforce
  with a show "decrypt_encrypt s = Inr (Some s)" by (simp add: decrypt_encrypt_bytes)
next
  show "encrypt_data [] = Inr None" by (simp add: encrypt_data_def)
  then show "decrypt_encrypt [] = Inr None" by (simp add: decrypt_encrypt_def decrypt_data_def)
qed

theorem decrypt_encrypt_round_trip_witness:
  "ustr ''hi!'' \<noteq> [] \<and> decrypt_encrypt (ustr ''hi!'') = Inr (Some (ustr ''hi!''))
   \<and> encrypt_data (ustr ''hi!'') = Inr (Some (ustr ''OwxC''))"
proof -
  have ne: "ustr ''hi!'' \<noteq> []" by (simp add: ustr_def)
  have small: "\<forall>(i, c) \<in> set (enumerate 0 (ustr ''hi!'')). c XOR key_at i < 256"
    by code_simp
  have enc: "encrypt_data (ustr ''hi!'') = Inr (Some (ustr ''OwxC''))" by code_simp
  from decrypt_encrypt_round_trip [of "ustr ''hi!''"] ne small enc show ?thesis by blast
qed

end
